theory Spec2Isabelle
  imports Complex_Main
begin

section \<open>Exceptions\<close>

text \<open>
  \<open>KeyError\<close> is what popping from an empty \<open>OrderedDict\<close> raises. Every other exception
  (\<open>OverflowError\<close> of the float arithmetic, whatever a middleware callable, the native
  library or a codec raises) is \<open>Raised\<close> with the exception's name.
\<close>

datatype error = KeyError | Raised string

section \<open>Floats\<close>

text \<open>
  A Python \<open>float\<close>: a finite value, an infinity, or not a number. \<open>time.time()\<close> returns
  a finite float, so a clock reading is the real number it denotes.
\<close>

datatype pyfloat = Finite real | PosInf | NegInf | NaN

text \<open>Truth value of a float: only zero is falsy\<close>

fun float_truthy :: "pyfloat \<Rightarrow> bool" where
  "float_truthy (Finite x) = (x \<noteq> 0)"
| "float_truthy PosInf = True"
| "float_truthy NegInf = True"
| "float_truthy NaN = True"

text \<open>\<open>now > e\<close> for a clock reading \<open>now\<close> and a float \<open>e\<close>\<close>

fun float_gt :: "real \<Rightarrow> pyfloat \<Rightarrow> bool" where
  "float_gt now (Finite x) = (now > x)"
| "float_gt now PosInf = False"
| "float_gt now NegInf = True"
| "float_gt now NaN = False"

text \<open>
  The sum \<open>time.time() + ttl\<close> of a float and an \<open>int\<close> is a parameter of the model,
  since IEEE arithmetic is not part of the source: converting the \<open>int\<close> raises
  \<open>OverflowError\<close> when it is outside the range of a double, and the sum is rounded,
  possibly to an infinity. The theorems hold for every such function.
\<close>

type_synonym float_add = "real \<Rightarrow> int \<Rightarrow> error + pyfloat"

section \<open>The ordered dictionary of \<open>LRUCache\<close>\<close>

text \<open>
  \<open>collections.OrderedDict\<close> is an association list in insertion order: the head is the
  oldest entry, the last element the newest. A cache entry is the tuple
  \<open>(value, expiry)\<close> of the source; \<open>expiry\<close> is \<open>None\<close> or a float.
\<close>

type_synonym 'v entry = "'v \<times> pyfloat option"
type_synonym 'v odict = "(string \<times> 'v entry) list"

text \<open>\<open>key in od\<close>\<close>

definition od_contains :: "string \<Rightarrow> 'v odict \<Rightarrow> bool" where
  "od_contains key od = (map_of od key \<noteq> None)"

text \<open>\<open>del od[key]\<close>, on a key that is present\<close>

definition od_del :: "string \<Rightarrow> 'v odict \<Rightarrow> 'v odict" where
  "od_del key od = filter (\<lambda>p. fst p \<noteq> key) od"

text \<open>\<open>od[key] = e\<close>: an existing key keeps its position, a new key goes to the end\<close>

definition od_setitem :: "string \<Rightarrow> 'v entry \<Rightarrow> 'v odict \<Rightarrow> 'v odict" where
  "od_setitem key e od =
     (if od_contains key od
      then map (\<lambda>p. if fst p = key then (key, e) else p) od
      else od @ [(key, e)])"

text \<open>
  \<open>od.move_to_end(key)\<close>. Python raises \<open>KeyError\<close> for a missing key; both call sites
  of the source run it on a key that is present (in \<open>get\<close> after the membership test, in
  \<open>put\<close> after the assignment, lemma \<open>setitem_contains\<close>), so the missing case leaves
  the dictionary as it is.
\<close>

definition od_move_to_end :: "string \<Rightarrow> 'v odict \<Rightarrow> 'v odict" where
  "od_move_to_end key od =
     (case map_of od key of
        None \<Rightarrow> od
      | Some e \<Rightarrow> od_del key od @ [(key, e)])"

text \<open>\<open>od.popitem(last=False)\<close>: \<open>KeyError\<close> on an empty dictionary\<close>

definition od_popitem_first :: "'v odict \<Rightarrow> error + 'v odict" where
  "od_popitem_first od = (case od of [] \<Rightarrow> Inl KeyError | _ # rest \<Rightarrow> Inr rest)"

section \<open>\<open>LRUCache\<close>\<close>

record 'v LRUCache =
  cache :: "'v odict"
  capacity :: int

text \<open>\<open>LRUCache.__init__\<close>: no check of the capacity, nothing can raise\<close>

definition LRUCache_init :: "int \<Rightarrow> error + 'v LRUCache" where
  "LRUCache_init cap = Inr \<lparr>cache = [], capacity = cap\<rparr>"

text \<open>
  The test \<open>expiry and time.time() > expiry\<close>: \<open>None\<close> and \<open>0.0\<close> are both falsy.
\<close>

definition is_expired :: "pyfloat option \<Rightarrow> real \<Rightarrow> bool" where
  "is_expired expiry now =
     (case expiry of None \<Rightarrow> False | Some e \<Rightarrow> float_truthy e \<and> float_gt now e)"

text \<open>
  \<open>LRUCache.get\<close> at clock reading \<open>now\<close>. Python's \<open>return None\<close> is \<open>None\<close>,
  \<open>return value\<close> is \<open>Some value\<close>. Nothing in it can raise.
\<close>

definition LRUCache_get :: "'v LRUCache \<Rightarrow> string \<Rightarrow> real \<Rightarrow> 'v option \<times> 'v LRUCache" where
  "LRUCache_get self key now =
     (case map_of (cache self) key of
        None \<Rightarrow> (None, self)
      | Some (v, expiry) \<Rightarrow>
          if is_expired expiry now
          then (None, self\<lparr>cache := od_del key (cache self)\<rparr>)
          else (Some v, self\<lparr>cache := od_move_to_end key (cache self)\<rparr>))"

text \<open>
  The expression \<open>time.time() + ttl if ttl else None\<close>: a ttl of \<open>None\<close> and a ttl of
  \<open>0\<close> are both falsy and give no expiry; for any other ttl the sum is computed, which
  may raise.
\<close>

definition expiry_of :: "float_add \<Rightarrow> int option \<Rightarrow> real \<Rightarrow> error + pyfloat option" where
  "expiry_of fadd ttl now =
     (case ttl of
        None \<Rightarrow> Inr None
      | Some t \<Rightarrow>
          if t \<noteq> 0
          then (case fadd now t of Inl e \<Rightarrow> Inl e | Inr x \<Rightarrow> Inr (Some x))
          else Inr None)"

text \<open>
  \<open>LRUCache.put\<close> at clock reading \<open>now\<close>. The result is what the call does (\<open>Inr ()\<close>
  when it returns, \<open>Inl\<close> the exception when it raises) and the object afterwards:
  \<open>popitem\<close> raises before anything has changed, the computation of the expiry raises
  after the deletion or the eviction has been done.
\<close>

definition LRUCache_put ::
  "float_add \<Rightarrow> 'v LRUCache \<Rightarrow> string \<Rightarrow> 'v \<Rightarrow> int option \<Rightarrow> real
     \<Rightarrow> (error + unit) \<times> 'v LRUCache" where
  "LRUCache_put fadd self key v ttl now =
     (case (if od_contains key (cache self) then Inr (od_del key (cache self))
            else if int (length (cache self)) \<ge> capacity self
                 then od_popitem_first (cache self)
                 else Inr (cache self)) of
        Inl e \<Rightarrow> (Inl e, self)
      | Inr od \<Rightarrow>
          (case expiry_of fadd ttl now of
             Inl e \<Rightarrow> (Inl e, self\<lparr>cache := od\<rparr>)
           | Inr expiry \<Rightarrow>
               (Inr (), self\<lparr>cache := od_move_to_end key (od_setitem key (v, expiry) od)\<rparr>)))"

text \<open>
  The dictionary invariant of the source's data structure: keys are unique.
\<close>

definition od_wf :: "'v odict \<Rightarrow> bool" where
  "od_wf od = distinct (map fst od)"

text \<open>
  The invariant of a cache in use: unique keys and no more entries than the capacity.
\<close>

definition cache_inv :: "'v LRUCache \<Rightarrow> bool" where
  "cache_inv self = (od_wf (cache self) \<and> int (length (cache self)) \<le> capacity self)"

text \<open>
  A run of \<open>put\<close> calls on one cache, each call with its own key, value, ttl and clock
  reading. A call that raises leaves the cache as the exception found it, and the run
  goes on with the next call (the caller has caught the exception).
\<close>

fun put_all ::
  "float_add \<Rightarrow> 'v LRUCache \<Rightarrow> (string \<times> 'v \<times> int option \<times> real) list \<Rightarrow> 'v LRUCache" where
  "put_all fadd self [] = self"
| "put_all fadd self ((key, v, ttl, now) # rest) =
     put_all fadd (snd (LRUCache_put fadd self key v ttl now)) rest"

section \<open>Payloads\<close>

text \<open>
  What \<open>json.loads\<close> returns: \<open>None\<close>, a bool, an int, a float, a str, a list or a
  dict (in insertion order).
\<close>

datatype json =
    JNull
  | JBool bool
  | JInt int
  | JFloat pyfloat
  | JStr string
  | JList "json list"
  | JDict "(string \<times> json) list"

text \<open>Python's truth value of a payload, as \<open>if cached_data:\<close> tests it\<close>

fun py_truthy :: "json \<Rightarrow> bool" where
  "py_truthy JNull = False"
| "py_truthy (JBool b) = b"
| "py_truthy (JInt n) = (n \<noteq> 0)"
| "py_truthy (JFloat x) = float_truthy x"
| "py_truthy (JStr s) = (s \<noteq> [])"
| "py_truthy (JList xs) = (xs \<noteq> [])"
| "py_truthy (JDict kvs) = (kvs \<noteq> [])"

section \<open>Collaborators\<close>

text \<open>
  The native library \<open>libeasier_apis_core.so\<close>, Python's \<open>json\<close> module, \<open>str.encode\<close>
  and the float arithmetic are not part of the source; they are parameters, and each
  call may raise. \<open>encode\<close> is \<open>s.encode('utf-8')\<close>. \<open>rust_core_fetch\<close> and
  \<open>rust_core_send\<close> take the encoded arguments and stand for the native call followed by
  \<open>ffi.string\<close>, the UTF-8 decoding and \<open>rust_core_free\<close>; an \<open>Inl\<close> of theirs is raised
  after the native call has been made.
\<close>

record collab =
  encode :: "string \<Rightarrow> error + string"
  rust_core_fetch :: "string \<Rightarrow> error + string"
  rust_core_send :: "string \<Rightarrow> string \<Rightarrow> string \<Rightarrow> error + string"
  json_loads :: "string \<Rightarrow> error + json"
  json_dumps :: "json \<Rightarrow> error + string"
  float_add :: float_add

text \<open>
  The requests made to the native library, in order, with their encoded arguments (a
  ghost field of the model).
\<close>

datatype native_call = Fetch string | Send string string string

section \<open>\<open>API\<close>\<close>

text \<open>
  A middleware callable maps a payload to a payload or raises; it does not touch the
  \<open>API\<close> object.
\<close>

record API =
  middleware :: "(json \<Rightarrow> error + json) list"
  api_cache :: "json LRUCache"
  native_calls :: "native_call list"

text \<open>\<open>API.__init__\<close>: the base URL is encoded for \<open>rust_core_new\<close>, then the cache is made\<close>

definition API_init :: "collab \<Rightarrow> string \<Rightarrow> int \<Rightarrow> error + API" where
  "API_init env base_url cache_capacity =
     (case encode env base_url of
        Inl e \<Rightarrow> Inl e
      | Inr b \<Rightarrow>
          (case LRUCache_init cache_capacity of
             Inl e \<Rightarrow> Inl e
           | Inr c \<Rightarrow> Inr \<lparr>middleware = [], api_cache = c, native_calls = []\<rparr>))"

text \<open>\<open>API.add_middleware\<close>\<close>

definition add_middleware :: "API \<Rightarrow> (json \<Rightarrow> error + json) \<Rightarrow> API" where
  "add_middleware self m = self\<lparr>middleware := middleware self @ [m]\<rparr>"

text \<open>\<open>API._apply_middleware\<close>: the loop over \<open>self.middleware\<close>; a raise ends it\<close>

fun apply_middleware :: "(json \<Rightarrow> error + json) list \<Rightarrow> json \<Rightarrow> error + json" where
  "apply_middleware [] data = Inr data"
| "apply_middleware (m # ms) data =
     (case m data of
        Inl e \<Rightarrow> Inl e
      | Inr data' \<Rightarrow> apply_middleware ms data')"

text \<open>
  \<open>API.fetch\<close>. \<open>now\<close> is the clock reading of the lookup, \<open>now'\<close> that of the store.
  The result is what the call returns or raises, and the object afterwards.
\<close>

definition fetch ::
  "collab \<Rightarrow> API \<Rightarrow> string \<Rightarrow> int option \<Rightarrow> real \<Rightarrow> real \<Rightarrow> (error + json) \<times> API" where
  "fetch env self path cache_ttl now now' =
     (let cache_key = ''GET:'' @ path;
          (cached_data, c) = LRUCache_get (api_cache self) cache_key now;
          self1 = self\<lparr>api_cache := c\<rparr>
      in case (case cached_data of None \<Rightarrow> None
               | Some d \<Rightarrow> if py_truthy d then Some d else None) of
           Some d \<Rightarrow> (Inr d, self1)
         | None \<Rightarrow>
             (case encode env path of
                Inl e \<Rightarrow> (Inl e, self1)
              | Inr bpath \<Rightarrow>
                  (let self2 = self1\<lparr>native_calls := native_calls self1 @ [Fetch bpath]\<rparr>
                   in case rust_core_fetch env bpath of
                        Inl e \<Rightarrow> (Inl e, self2)
                      | Inr json_str \<Rightarrow>
                          (case json_loads env json_str of
                             Inl e \<Rightarrow> (Inl e, self2)
                           | Inr data \<Rightarrow>
                               (case apply_middleware (middleware self2) data of
                                  Inl e \<Rightarrow> (Inl e, self2)
                                | Inr data' \<Rightarrow>
                                    (case cache_ttl of
                                       None \<Rightarrow> (Inr data', self2)
                                     | Some ttl \<Rightarrow>
                                         (let (r, c') =
                                                LRUCache_put (float_add env) (api_cache self2)
                                                  cache_key data' (Some ttl) now';
                                              self3 = self2\<lparr>api_cache := c'\<rparr>
                                          in case r of
                                               Inl e \<Rightarrow> (Inl e, self3)
                                             | Inr u \<Rightarrow> (Inr data', self3))))))))"

text \<open>
  \<open>API.send\<close>: the pipeline, \<open>json.dumps\<close>, the encoding of the three arguments in the
  order they are written, the native call, the decoding of the answer.
\<close>

definition send ::
  "collab \<Rightarrow> API \<Rightarrow> string \<Rightarrow> string \<Rightarrow> json \<Rightarrow> (error + json) \<times> API" where
  "send env self path method data =
     (case apply_middleware (middleware self) data of
        Inl e \<Rightarrow> (Inl e, self)
      | Inr data' \<Rightarrow>
          (case json_dumps env data' of
             Inl e \<Rightarrow> (Inl e, self)
           | Inr json_data \<Rightarrow>
               (case encode env path of
                  Inl e \<Rightarrow> (Inl e, self)
                | Inr bpath \<Rightarrow>
                    (case encode env method of
                       Inl e \<Rightarrow> (Inl e, self)
                     | Inr bmethod \<Rightarrow>
                         (case encode env json_data of
                            Inl e \<Rightarrow> (Inl e, self)
                          | Inr bdata \<Rightarrow>
                              (let self1 = self\<lparr>native_calls :=
                                     native_calls self @ [Send bpath bmethod bdata]\<rparr>
                               in case rust_core_send env bpath bmethod bdata of
                                    Inl e \<Rightarrow> (Inl e, self1)
                                  | Inr json_str \<Rightarrow> (json_loads env json_str, self1)))))))"

text \<open>
  \<open>API.invalidate_cache\<close>. The test \<open>if path:\<close> is false for \<open>None\<close> and for the empty
  string.
\<close>

definition invalidate_cache :: "API \<Rightarrow> string option \<Rightarrow> API" where
  "invalidate_cache self path =
     (case (case path of None \<Rightarrow> None | Some p \<Rightarrow> if p \<noteq> [] then Some p else None) of
        Some p \<Rightarrow>
          (let cache_key = ''GET:'' @ p
           in if od_contains cache_key (cache (api_cache self))
              then self\<lparr>api_cache :=
                     (api_cache self)\<lparr>cache := od_del cache_key (cache (api_cache self))\<rparr>\<rparr>
              else self)
      | None \<Rightarrow> self\<lparr>api_cache := (api_cache self)\<lparr>cache := []\<rparr>\<rparr>)"

section \<open>Concrete collaborators and objects for the examples\<close>

text \<open>
  Float addition as far as the examples need it; the general theorems hold for every
  addition and do not use it. An \<open>int\<close> of magnitude \<open>2^1024 - 2^970\<close> or more rounds
  beyond the largest double and Python raises \<open>OverflowError\<close>. The other calls of the
  examples add whole numbers below \<open>2^53\<close>, where the double sum is the exact sum;
  rounding is not modelled here.
\<close>

definition example_float_add :: float_add where
  "example_float_add now t =
     (if 2 ^ 1024 - 2 ^ 970 \<le> \<bar>t\<bar>
      then Inl (Raised ''OverflowError'')
      else Inr (Finite (now + real_of_int t)))"

text \<open>
  A native library that answers every request with the text \<open>{}\<close>, a codec that knows
  this text and the empty dict, and an encoding that maps a text to itself (the texts
  of the examples are ASCII).
\<close>

definition example_env :: collab where
  "example_env =
     \<lparr>encode = (\<lambda>s. Inr s),
      rust_core_fetch = (\<lambda>path. Inr ''{}''),
      rust_core_send = (\<lambda>path method body. Inr ''{}''),
      json_loads = (\<lambda>s. if s = ''{}'' then Inr (JDict [])
                         else Inl (Raised ''JSONDecodeError'')),
      json_dumps = (\<lambda>j. if j = JDict [] then Inr ''{}'' else Inl (Raised ''TypeError'')),
      float_add = example_float_add\<rparr>"

text \<open>A fresh object with room for two entries.\<close>

definition example_api :: API where
  "example_api =
     \<lparr>middleware = [], api_cache = \<lparr>cache = [], capacity = 2\<rparr>, native_calls = []\<rparr>"

text \<open>An object whose cache holds entries for the empty path and for \<open>/b\<close>.\<close>

definition example_api2 :: API where
  "example_api2 =
     \<lparr>middleware = [],
      api_cache =
        \<lparr>cache = [(''GET:'', (JInt 1, None)), (''GET:/b'', (JInt 2, Some (Finite 50)))],
         capacity = 2\<rparr>,
      native_calls = []\<rparr>"

text \<open>
  A full cache of capacity 2: \<open>b\<close>, with an expiry, is the least recently used key,
  \<open>a\<close> the most recently used one.
\<close>

definition example_cache :: "int LRUCache" where
  "example_cache =
     \<lparr>cache = [(''b'', (2, Some (Finite 50))), (''a'', (1, None))], capacity = 2\<rparr>"

section \<open>Basic facts about the ordered dictionary\<close>

lemma od_contains_iff: "od_contains key od \<longleftrightarrow> key \<in> fst ` set od"
  by (simp add: od_contains_def map_of_eq_None_iff)

lemma map_of_od_del: "map_of (od_del key od) k = (if k = key then None else map_of od k)"
  unfolding od_del_def by (induction od) auto

lemma od_wf_del: "od_wf od \<Longrightarrow> od_wf (od_del key od)"
  by (simp add: od_wf_def od_del_def distinct_map_filter)

lemma od_del_absent: "\<not> od_contains key od \<Longrightarrow> od_del key od = od"
  unfolding od_del_def od_contains_iff by (induction od) auto

lemma length_od_del_le: "length (od_del key od) \<le> length od"
  by (simp add: od_del_def)

lemma length_od_del_present:
  "od_wf od \<Longrightarrow> od_contains key od \<Longrightarrow> Suc (length (od_del key od)) = length od"
  unfolding od_wf_def od_del_def od_contains_iff
proof (induction od)
  case Nil
  then show ?case by simp
next
  case (Cons p od)
  show ?case
  proof (cases "fst p = key")
    case True
    with Cons.prems have "key \<notin> fst ` set od" by auto
    then have "filter (\<lambda>q. fst q \<noteq> key) od = od"
      by (induction od) auto
    with True show ?thesis by simp
  next
    case False
    with Cons show ?thesis by auto
  qed
qed

lemma setitem_absent: "\<not> od_contains key od \<Longrightarrow> od_setitem key e od = od @ [(key, e)]"
  by (simp add: od_setitem_def)

lemma keys_setitem_present:
  "map fst (map (\<lambda>p. if fst p = key then (key, e) else p) od) = map fst od"
  by (induction od) auto

lemma setitem_contains: "od_contains key (od_setitem key e od)"
proof (cases "od_contains key od")
  case True
  then have "key \<in> set (map fst od)"
    by (simp add: od_contains_iff)
  then have "key \<in> set (map fst (map (\<lambda>p. if fst p = key then (key, e) else p) od))"
    by (simp only: keys_setitem_present)
  then have "od_contains key (map (\<lambda>p. if fst p = key then (key, e) else p) od)"
    by (simp only: od_contains_iff set_map)
  with True show ?thesis
    by (simp only: od_setitem_def if_True)
next
  case False
  then show ?thesis
    by (simp add: od_setitem_def od_contains_iff)
qed

lemma move_to_end_fresh:
  assumes "\<not> od_contains key od"
  shows "od_move_to_end key (od @ [(key, e)]) = od @ [(key, e)]"
proof -
  have "map_of od key = None"
    using assms unfolding od_contains_def by blast
  then have "map_of (od @ [(key, e)]) key = Some e"
    by (simp add: map_add_def)
  moreover have "od_del key (od @ [(key, e)]) = od"
    using od_del_absent [OF assms] by (simp add: od_del_def)
  ultimately show ?thesis
    by (simp add: od_move_to_end_def)
qed

lemma not_contains_del: "\<not> od_contains key (od_del key od)"
  by (simp add: od_contains_def map_of_od_del)

lemma not_contains_tl: "\<not> od_contains key (p # rest) \<Longrightarrow> \<not> od_contains key rest"
  by (auto simp: od_contains_iff)

lemma od_wf_snoc: "od_wf od \<Longrightarrow> \<not> od_contains key od \<Longrightarrow> od_wf (od @ [(key, e)])"
  by (auto simp: od_wf_def od_contains_iff)

lemma od_wf_tl: "od_wf (p # rest) \<Longrightarrow> od_wf rest"
  by (simp add: od_wf_def)

lemma store_fresh:
  "\<not> od_contains key od \<Longrightarrow>
     od_move_to_end key (od_setitem key e od) = od @ [(key, e)]"
  by (simp add: setitem_absent move_to_end_fresh)

section \<open>What \<open>put\<close> does, case by case\<close>

lemma put_existing:
  assumes "od_contains key (cache self)"
  shows "LRUCache_put fadd self key v ttl now =
           (case expiry_of fadd ttl now of
              Inl e \<Rightarrow> (Inl e, self\<lparr>cache := od_del key (cache self)\<rparr>)
            | Inr x \<Rightarrow> (Inr (), self\<lparr>cache := od_del key (cache self) @ [(key, (v, x))]\<rparr>))"
  using assms
  by (simp add: LRUCache_put_def store_fresh [OF not_contains_del] split: sum.splits)

lemma put_new_room:
  assumes "\<not> od_contains key (cache self)" and "int (length (cache self)) < capacity self"
  shows "LRUCache_put fadd self key v ttl now =
           (case expiry_of fadd ttl now of
              Inl e \<Rightarrow> (Inl e, self\<lparr>cache := cache self\<rparr>)
            | Inr x \<Rightarrow> (Inr (), self\<lparr>cache := cache self @ [(key, (v, x))]\<rparr>))"
  using assms
  by (simp add: LRUCache_put_def store_fresh [OF assms(1)] split: sum.splits)

lemma put_new_full:
  assumes "\<not> od_contains key (cache self)" and "capacity self \<le> int (length (cache self))"
    and "cache self = p # rest"
  shows "LRUCache_put fadd self key v ttl now =
           (case expiry_of fadd ttl now of
              Inl e \<Rightarrow> (Inl e, self\<lparr>cache := rest\<rparr>)
            | Inr x \<Rightarrow> (Inr (), self\<lparr>cache := rest @ [(key, (v, x))]\<rparr>))"
proof -
  have nc: "\<not> od_contains key rest"
    using assms(1,3) not_contains_tl by metis
  show ?thesis
    using assms
    by (simp add: LRUCache_put_def od_popitem_first_def store_fresh [OF nc] split: sum.splits)
qed

lemma put_new_full_empty:
  assumes "capacity self \<le> 0" and "cache self = []"
  shows "LRUCache_put fadd self key v ttl now = (Inl KeyError, self)"
  using assms by (simp add: LRUCache_put_def od_popitem_first_def od_contains_def)

text \<open>
  With a capacity of at least 1 and the invariant, \<open>popitem\<close> never meets an empty
  dictionary: \<open>put\<close> raises only what the computation of the expiry raises, and the
  dictionary afterwards is the old one without the key, without its head, or as it
  was, followed by the new entry when the call returns.
\<close>

lemma put_cases:
  assumes "1 \<le> capacity self" and "cache_inv self"
  shows "cache_inv (snd (LRUCache_put fadd self key v ttl now)) \<and>
         capacity (snd (LRUCache_put fadd self key v ttl now)) = capacity self \<and>
         fst (LRUCache_put fadd self key v ttl now) =
           (case expiry_of fadd ttl now of Inl e \<Rightarrow> Inl e | Inr x \<Rightarrow> Inr ()) \<and>
         cache (snd (LRUCache_put fadd self key v ttl now)) =
           (if od_contains key (cache self) then od_del key (cache self)
            else if capacity self \<le> int (length (cache self)) then tl (cache self)
            else cache self)
           @ (case expiry_of fadd ttl now of Inl e \<Rightarrow> [] | Inr x \<Rightarrow> [(key, (v, x))])"
proof (cases "od_contains key (cache self)")
  case True
  have wf: "od_wf (od_del key (cache self))"
    using assms(2) by (simp add: cache_inv_def od_wf_del)
  have len: "Suc (length (od_del key (cache self))) = length (cache self)"
    using assms(2) True by (simp add: cache_inv_def length_od_del_present)
  have "int (length (od_del key (cache self))) + 1 \<le> capacity self"
    using len assms(2) by (simp add: cache_inv_def)
  then show ?thesis
    using True wf
    by (simp add: put_existing cache_inv_def od_wf_snoc not_contains_del split: sum.splits)
next
  case False
  show ?thesis
  proof (cases "capacity self \<le> int (length (cache self))")
    case full: True
    with assms(1) obtain p rest where pr: "cache self = p # rest"
      by (cases "cache self") auto
    have nc: "\<not> od_contains key rest"
      using False pr not_contains_tl by metis
    have wf: "od_wf rest"
      using assms(2) pr od_wf_tl [of p rest] by (simp add: cache_inv_def)
    have "int (length rest) + 1 \<le> capacity self"
      using assms(2) pr by (simp add: cache_inv_def)
    then show ?thesis
      using False full pr wf nc
      by (simp add: put_new_full [OF False full pr] cache_inv_def od_wf_snoc
          split: sum.splits)
  next
    case room: False
    then have lt: "int (length (cache self)) < capacity self" by simp
    show ?thesis
      using False room lt assms(2)
      by (simp add: put_new_room [OF False lt] cache_inv_def od_wf_snoc split: sum.splits)
  qed
qed

lemma put_all_inv:
  assumes "1 \<le> capacity self" and "cache_inv self"
  shows "cache_inv (put_all fadd self ops) \<and> capacity (put_all fadd self ops) = capacity self"
  using assms
proof (induction ops arbitrary: self)
  case Nil
  then show ?case by simp
next
  case (Cons op ops)
  obtain key v ttl now where op: "op = (key, v, ttl, now)"
    by (cases op) auto
  let ?s1 = "snd (LRUCache_put fadd self key v ttl now)"
  from put_cases [OF Cons.prems, of fadd key v ttl now]
  have s1: "cache_inv ?s1" "capacity ?s1 = capacity self"
    by simp_all
  from Cons.IH [of ?s1] s1 Cons.prems(1)
  have "cache_inv (put_all fadd ?s1 ops) \<and> capacity (put_all fadd ?s1 ops) = capacity ?s1"
    by simp
  with s1 op show ?case by simp
qed

section \<open>What \<open>get\<close> does\<close>

lemma map_of_move_to_end: "map_of (od_move_to_end key od) k = map_of od k"
  by (cases "map_of od key")
    (auto simp: od_move_to_end_def map_add_def map_of_od_del split: option.splits)

lemma get_hit:
  assumes "LRUCache_get self key now = (Some v, self')"
  shows "\<exists>expiry. map_of (cache self) key = Some (v, expiry) \<and>
           \<not> is_expired expiry now \<and>
           self' = self\<lparr>cache := od_del key (cache self) @ [(key, (v, expiry))]\<rparr>"
  using assms
  by (auto simp: LRUCache_get_def od_move_to_end_def split: option.splits if_splits)

lemma get_entries_subset:
  "map_of (cache (snd (LRUCache_get self key now))) k = Some e \<Longrightarrow>
     map_of (cache self) k = Some e"
  by (auto simp: LRUCache_get_def map_of_od_del map_of_move_to_end
      split: option.splits if_splits)

section \<open>Claims about \<open>LRUCache\<close>\<close>

text \<open>
  C3. A cache constructed with capacity \<open>c \<ge> 1\<close> never holds more than \<open>c\<close> entries,
  after any run of \<open>put\<close> calls (any keys, values, ttls and clock readings, calls that
  raise included) and after one more \<open>put\<close>. That \<open>put\<close> raises only what the
  computation of the expiry raises. When its key is present it evicts nothing: the
  other entries stay as they are, and the number of entries is unchanged when it
  returns. When the key is new and the cache is full it first evicts the head of the
  order, the least recently used entry; otherwise it only appends.
\<close>

theorem capacity_invariant:
  assumes "1 \<le> c"
  shows "\<exists>self. LRUCache_init c = Inr self \<and>
           (let s = put_all fadd self ops;
                res = LRUCache_put fadd s key v ttl now;
                new = (case expiry_of fadd ttl now of Inl e \<Rightarrow> [] | Inr x \<Rightarrow> [(key, (v, x))])
            in int (length (cache s)) \<le> c \<and>
               int (length (cache (snd res))) \<le> c \<and>
               fst res = (case expiry_of fadd ttl now of Inl e \<Rightarrow> Inl e | Inr x \<Rightarrow> Inr ()) \<and>
               cache (snd res) =
                 (if od_contains key (cache s) then od_del key (cache s) @ new
                  else if c \<le> int (length (cache s)) then tl (cache s) @ new
                  else cache s @ new) \<and>
               (od_contains key (cache s) \<and> fst res = Inr () \<longrightarrow>
                  length (cache (snd res)) = length (cache s)))"
proof -
  let ?ini = "\<lparr>cache = [], capacity = c\<rparr> :: 'a LRUCache"
  let ?st = "put_all fadd ?ini ops"
  let ?out = "LRUCache_put fadd ?st key v ttl now"
  have inv0: "cache_inv ?ini" and cap0: "1 \<le> capacity ?ini"
    using assms by (simp_all add: cache_inv_def od_wf_def)
  from put_all_inv [OF cap0 inv0, of fadd ops]
  have s: "cache_inv ?st" "capacity ?st = c"
    by simp_all
  have cap: "1 \<le> capacity ?st"
    using s(2) assms by simp
  note pc = put_cases [OF cap s(1), of fadd key v ttl now]
  from pc have pc1: "cache_inv (snd ?out)"
    by (rule conjunct1)
  from pc have pc2: "capacity (snd ?out) = capacity ?st"
    by blast
  from pc have pc3: "fst ?out =
      (case expiry_of fadd ttl now of Inl e \<Rightarrow> Inl e | Inr x \<Rightarrow> Inr ())"
    by blast
  from pc have pc4: "cache (snd ?out) =
      (if od_contains key (cache ?st) then od_del key (cache ?st)
       else if capacity ?st \<le> int (length (cache ?st)) then tl (cache ?st)
       else cache ?st)
      @ (case expiry_of fadd ttl now of Inl e \<Rightarrow> [] | Inr x \<Rightarrow> [(key, (v, x))])"
    by blast
  have len_s: "int (length (cache ?st)) \<le> c"
    using s by (simp add: cache_inv_def)
  have len_out: "int (length (cache (snd ?out))) \<le> c"
    using pc1 pc2 s(2) by (simp add: cache_inv_def)
  have same: "length (cache (snd ?out)) = length (cache ?st)"
    if "od_contains key (cache ?st)" "fst ?out = Inr ()"
  proof -
    from that(2) pc3 obtain x where x: "expiry_of fadd ttl now = Inr x"
      by (cases "expiry_of fadd ttl now") auto
    have "Suc (length (od_del key (cache ?st))) = length (cache ?st)"
      using s(1) that(1) by (simp add: cache_inv_def length_od_del_present)
    with pc4 that(1) x show ?thesis by simp
  qed
  have shape: "cache (snd ?out) =
      (if od_contains key (cache ?st)
       then od_del key (cache ?st)
            @ (case expiry_of fadd ttl now of Inl e \<Rightarrow> [] | Inr x \<Rightarrow> [(key, (v, x))])
       else if c \<le> int (length (cache ?st))
       then tl (cache ?st)
            @ (case expiry_of fadd ttl now of Inl e \<Rightarrow> [] | Inr x \<Rightarrow> [(key, (v, x))])
       else cache ?st
            @ (case expiry_of fadd ttl now of Inl e \<Rightarrow> [] | Inr x \<Rightarrow> [(key, (v, x))]))"
    using pc4 s(2) by simp
  have init: "LRUCache_init c = Inr ?ini"
    by (simp add: LRUCache_init_def)
  have "int (length (cache ?st)) \<le> c \<and>
        int (length (cache (snd ?out))) \<le> c \<and>
        fst ?out = (case expiry_of fadd ttl now of Inl e \<Rightarrow> Inl e | Inr x \<Rightarrow> Inr ()) \<and>
        cache (snd ?out) =
          (if od_contains key (cache ?st)
           then od_del key (cache ?st)
                @ (case expiry_of fadd ttl now of Inl e \<Rightarrow> [] | Inr x \<Rightarrow> [(key, (v, x))])
           else if c \<le> int (length (cache ?st))
           then tl (cache ?st)
                @ (case expiry_of fadd ttl now of Inl e \<Rightarrow> [] | Inr x \<Rightarrow> [(key, (v, x))])
           else cache ?st
                @ (case expiry_of fadd ttl now of Inl e \<Rightarrow> [] | Inr x \<Rightarrow> [(key, (v, x))])) \<and>
        (od_contains key (cache ?st) \<and> fst ?out = Inr () \<longrightarrow>
           length (cache (snd ?out)) = length (cache ?st))"
    using len_s len_out pc3 shape same by blast
  with init show ?thesis
    unfolding Let_def by blast
qed

theorem capacity_invariant_witness:
  "(1::int) \<le> 2 \<and>
   (\<exists>self. LRUCache_init 2 = Inr self \<and>
      int (length (cache (put_all example_float_add self
             [(''a'', 1::int, None, 0), (''b'', 2, Some 5, 1), (''c'', 3, Some (10 ^ 400), 2)])))
        \<le> 2)"
proof -
  have h: "(1::int) \<le> 2" by simp
  from capacity_invariant [OF h, of example_float_add
      "[(''a'', 1::int, None, 0), (''b'', 2, Some 5, 1), (''c'', 3, Some (10 ^ 400), 2)]"
      "''d''" 4 None 3]
  show ?thesis
    using h by (auto simp: Let_def)
qed

lemma map_of_snoc_fresh:
  "\<not> od_contains key od \<Longrightarrow> map_of (od @ [(key, e)]) k = (if k = key then Some e else map_of od k)"
  unfolding od_contains_def by (auto simp: map_add_def split: option.splits)

lemma put_returns_stored:
  assumes "LRUCache_put fadd self key v ttl now = (Inr (), self')"
  shows "\<exists>x od. expiry_of fadd ttl now = Inr x \<and> \<not> od_contains key od \<and>
           cache self' = od @ [(key, (v, x))]"
proof (cases "od_contains key (cache self)")
  case True
  with assms not_contains_del [of key "cache self"] show ?thesis
    by (auto simp: put_existing split: sum.splits)
next
  case False
  show ?thesis
  proof (cases "capacity self \<le> int (length (cache self))")
    case full: True
    show ?thesis
    proof (cases "cache self")
      case Nil
      with False full assms show ?thesis
        by (simp add: LRUCache_put_def od_popitem_first_def)
    next
      case (Cons p rest)
      have "\<not> od_contains key rest"
        using False Cons not_contains_tl by metis
      with assms show ?thesis
        by (auto simp: put_new_full [OF False full Cons] split: sum.splits)
    qed
  next
    case room: False
    then have lt: "int (length (cache self)) < capacity self" by simp
    with assms False show ?thesis
      by (auto simp: put_new_room [OF False lt] split: sum.splits)
  qed
qed

lemma get_after_put:
  assumes "LRUCache_put fadd self key v ttl now = (Inr (), self')"
  shows "\<exists>x. expiry_of fadd ttl now = Inr x \<and>
           fst (LRUCache_get self' key now') = (if is_expired x now' then None else Some v)"
proof -
  from put_returns_stored [OF assms] obtain x od where
    x: "expiry_of fadd ttl now = Inr x" and nc: "\<not> od_contains key od"
    and c: "cache self' = od @ [(key, (v, x))]"
    by blast
  have "map_of (cache self') key = Some (v, x)"
    using c map_of_snoc_fresh [OF nc] by simp
  then have "fst (LRUCache_get self' key now') = (if is_expired x now' then None else Some v)"
    by (simp add: LRUCache_get_def)
  with x show ?thesis by blast
qed

text \<open>An entry stored without a ttl, or with the ttl 0, never expires.\<close>

lemma no_ttl_never_expires:
  assumes "LRUCache_put fadd self key v ttl now = (Inr (), self')"
    and "ttl = None \<or> ttl = Some 0"
  shows "fst (LRUCache_get self' key now') = Some v"
proof -
  from assms(2) have "expiry_of fadd ttl now = Inr None"
    by (auto simp: expiry_of_def)
  with get_after_put [OF assms(1), of now'] show ?thesis
    by (auto simp: is_expired_def)
qed

text \<open>
  An entry stored with another ttl has the expiry that the float addition gave, and
  is absent as soon as the clock is beyond a nonzero expiry.
\<close>

lemma ttl_expires:
  assumes "LRUCache_put fadd self key v (Some t) now = (Inr (), self')" and "t \<noteq> 0"
  shows "\<exists>x. fadd now t = Inr x \<and>
           fst (LRUCache_get self' key now') =
             (if float_truthy x \<and> float_gt now' x then None else Some v)"
proof -
  from get_after_put [OF assms(1), of now'] obtain y where
    y: "expiry_of fadd (Some t) now = Inr y"
    "fst (LRUCache_get self' key now') = (if is_expired y now' then None else Some v)"
    by blast
  from y(1) assms(2) obtain x where "fadd now t = Inr x" "y = Some x"
    by (auto simp: expiry_of_def split: sum.splits)
  with y(2) show ?thesis
    by (simp add: is_expired_def)
qed

text \<open>
  C1. The claim says that an entry stored with \<open>ttl=0\<close> is absent at every later
  time. The code stores it without expiry: on a fresh cache \<open>put(k, v, ttl=0)\<close> returns
  with the entry \<open>(v, None)\<close>, and \<open>get(k)\<close> returns \<open>v\<close> at every clock reading
  \<open>t'\<close>, also long after the clock reading \<open>t\<close> of the store.
\<close>

theorem ttl_zero_never_expires:
  "LRUCache_put fadd \<lparr>cache = [], capacity = 1\<rparr> k v (Some 0) t =
     (Inr (), \<lparr>cache = [(k, (v, None))], capacity = 1\<rparr>) \<and>
   LRUCache_get \<lparr>cache = [(k, (v, None))], capacity = 1\<rparr> k t' =
     (Some v, \<lparr>cache = [(k, (v, None))], capacity = 1\<rparr>)"
  by (simp add: LRUCache_put_def LRUCache_get_def od_contains_def expiry_of_def
      od_setitem_def od_move_to_end_def od_del_def is_expired_def)

text \<open>
  C5, the general sentence as the claim states it, fails for a \<open>put\<close> that raises: on
  the full cache holding \<open>b\<close> and \<open>a\<close>, \<open>put(a, 9, ttl=10**400)\<close> deletes \<open>a\<close>, then
  raises \<open>OverflowError\<close> on \<open>time.time() + ttl\<close>; \<open>a\<close> is not the most recently used
  key afterwards, it is gone.
\<close>

theorem put_overflow_not_mru:
  "LRUCache_put example_float_add example_cache ''a'' 9 (Some (10 ^ 400)) 100 =
     (Inl (Raised ''OverflowError''),
      \<lparr>cache = [(''b'', (2, Some (Finite 50)))], capacity = 2\<rparr>)"
  by (simp add: LRUCache_put_def example_cache_def example_float_add_def od_contains_def
      od_del_def expiry_of_def)

text \<open>
  C5. With capacity 2 and distinct keys \<open>a\<close>, \<open>b\<close>, \<open>c\<close>, the run
  \<open>put(a, v1); put(b, v2); get(a); put(c, v3)\<close> returns at every step, \<open>get\<close> is a hit,
  and the cache is left holding exactly \<open>a\<close> and \<open>c\<close>, in this order: \<open>b\<close> was evicted.
  In general a \<open>get\<close> that hits and a \<open>put\<close> that returns leave their key at the most
  recently used end of the order.
\<close>

theorem lru_order:
  assumes "a \<noteq> b" and "a \<noteq> c" and "b \<noteq> c"
  shows "(\<exists>s1 s2 s3 s4.
            LRUCache_put fadd \<lparr>cache = [], capacity = 2\<rparr> a (v1::'v) None t1
              = (Inr (), s1) \<and>
            LRUCache_put fadd s1 b v2 None t2 = (Inr (), s2) \<and>
            LRUCache_get s2 a t3 = (Some v1, s3) \<and>
            LRUCache_put fadd s3 c v3 None t4 = (Inr (), s4) \<and>
            cache s4 = [(a, (v1, None)), (c, (v3, None))]) \<and>
         (\<forall>(self::'v LRUCache) key v ttl now self'.
            LRUCache_put fadd self key v ttl now = (Inr (), self') \<longrightarrow>
              cache self' \<noteq> [] \<and> fst (last (cache self')) = key \<and>
              fst (snd (last (cache self'))) = v) \<and>
         (\<forall>(self::'v LRUCache) key now v self'.
            LRUCache_get self key now = (Some v, self') \<longrightarrow>
              cache self' \<noteq> [] \<and> fst (last (cache self')) = key \<and>
              fst (snd (last (cache self'))) = v)"
proof -
  let ?s1 = "\<lparr>cache = [(a, (v1, None))], capacity = 2\<rparr>"
  let ?s2 = "\<lparr>cache = [(a, (v1, None)), (b, (v2, None))], capacity = 2\<rparr>"
  let ?s3 = "\<lparr>cache = [(b, (v2, None)), (a, (v1, None))], capacity = 2\<rparr>"
  let ?s4 = "\<lparr>cache = [(a, (v1, None)), (c, (v3, None))], capacity = 2\<rparr>"
  have p1: "LRUCache_put fadd \<lparr>cache = [], capacity = 2\<rparr> a v1 None t1 = (Inr (), ?s1)"
    by (simp add: LRUCache_put_def od_contains_def expiry_of_def od_setitem_def
        od_move_to_end_def od_del_def)
  have p2: "LRUCache_put fadd ?s1 b v2 None t2 = (Inr (), ?s2)"
    using assms
    by (simp add: LRUCache_put_def od_contains_def expiry_of_def od_setitem_def
        od_move_to_end_def od_del_def)
  have g3: "LRUCache_get ?s2 a t3 = (Some v1, ?s3)"
    using assms
    by (simp add: LRUCache_get_def is_expired_def od_move_to_end_def od_del_def)
  have p4: "LRUCache_put fadd ?s3 c v3 None t4 = (Inr (), ?s4)"
    using assms
    by (simp add: LRUCache_put_def od_contains_def expiry_of_def od_setitem_def
        od_move_to_end_def od_del_def od_popitem_first_def)
  from p1 p2 g3 p4
  have run: "\<exists>s1 s2 s3 s4.
          LRUCache_put fadd \<lparr>cache = [], capacity = 2\<rparr> a v1 None t1 = (Inr (), s1) \<and>
          LRUCache_put fadd s1 b v2 None t2 = (Inr (), s2) \<and>
          LRUCache_get s2 a t3 = (Some v1, s3) \<and>
          LRUCache_put fadd s3 c v3 None t4 = (Inr (), s4) \<and>
          cache s4 = [(a, (v1, None)), (c, (v3, None))]"
    by (intro exI [of _ ?s1] exI [of _ ?s2] exI [of _ ?s3] exI [of _ ?s4]) simp
  have put_mru: "cache self' \<noteq> [] \<and> fst (last (cache self')) = key \<and>
      fst (snd (last (cache self'))) = v"
    if "LRUCache_put fadd self key v ttl now = (Inr (), self')"
    for self :: "'v LRUCache" and key v ttl now self'
  proof -
    from put_returns_stored [OF that] obtain x od where
      "cache self' = od @ [(key, (v, x))]"
      by blast
    then show ?thesis by simp
  qed
  have get_mru: "cache self' \<noteq> [] \<and> fst (last (cache self')) = key \<and>
      fst (snd (last (cache self'))) = v"
    if "LRUCache_get self key now = (Some v, self')"
    for self :: "'v LRUCache" and key now v self'
  proof -
    from get_hit [OF that] obtain expiry where
      "self' = self\<lparr>cache := od_del key (cache self) @ [(key, (v, expiry))]\<rparr>"
      by blast
    then show ?thesis by simp
  qed
  from run put_mru get_mru show ?thesis
    by blast
qed

theorem lru_order_witness:
  "''a'' \<noteq> ''b'' \<and> ''a'' \<noteq> ''c'' \<and> ''b'' \<noteq> ''c'' \<and>
   (\<exists>s1 s2 s3 s4.
      LRUCache_put example_float_add \<lparr>cache = [], capacity = 2\<rparr> ''a'' (1::int) None 10
        = (Inr (), s1) \<and>
      LRUCache_put example_float_add s1 ''b'' 2 None 11 = (Inr (), s2) \<and>
      LRUCache_get s2 ''a'' 12 = (Some 1, s3) \<and>
      LRUCache_put example_float_add s3 ''c'' 3 None 13 = (Inr (), s4) \<and>
      cache s4 = [(''a'', (1, None)), (''c'', (3, None))])"
proof -
  have h1: "''a'' \<noteq> ''b''" and h2: "''a'' \<noteq> ''c''" and h3: "''b'' \<noteq> ''c''"
    by simp_all
  from lru_order [OF h1 h2 h3, of example_float_add "1::int" 10 2 11 12 3 13]
  show ?thesis
    using h1 h2 h3 by blast
qed

lemma map_of_del_snoc:
  "map_of (od_del key od @ [(key, e)]) k = (if k = key then Some e else map_of od k)"
  by (auto simp: map_add_def map_of_od_del split: option.splits)

text \<open>
  C8, as the claim states it, fails for a \<open>put\<close> that raises: on the full cache
  holding \<open>b\<close> and \<open>a\<close>, \<open>put(b, 7, ttl=10**400)\<close> deletes the entry of \<open>b\<close>, then raises
  \<open>OverflowError\<close> on \<open>time.time() + ttl\<close>; the key does not hold the new value, it is
  absent.
\<close>

theorem put_existing_overflow_loses_key:
  "LRUCache_put example_float_add example_cache ''b'' 7 (Some (10 ^ 400)) 20 =
     (Inl (Raised ''OverflowError''), \<lparr>cache = [(''a'', (1, None))], capacity = 2\<rparr>) \<and>
   map_of [(''a'', (1::int, None::pyfloat option))] ''b'' = None"
  by (simp add: LRUCache_put_def example_cache_def example_float_add_def od_contains_def
      od_del_def expiry_of_def)

text \<open>
  C8. When \<open>put\<close> is called with a key that is present (at capacity or not), every
  other key keeps its value and its expiry, whether the call returns or raises. When
  the call returns, the key holds the new value with the expiry computed from the ttl,
  and the number of entries is unchanged: nothing was evicted.
\<close>

theorem put_existing_frame:
  assumes "od_contains key (cache self)"
  shows "(\<forall>k. k \<noteq> key \<longrightarrow>
            map_of (cache (snd (LRUCache_put fadd self key v ttl now))) k
              = map_of (cache self) k) \<and>
         (fst (LRUCache_put fadd self key v ttl now) = Inr () \<longrightarrow>
            (\<exists>x. expiry_of fadd ttl now = Inr x \<and>
               map_of (cache (snd (LRUCache_put fadd self key v ttl now))) key
                 = Some (v, x)) \<and>
            (od_wf (cache self) \<longrightarrow>
               length (cache (snd (LRUCache_put fadd self key v ttl now)))
                 = length (cache self)))"
proof (cases "expiry_of fadd ttl now")
  case (Inl e)
  with assms show ?thesis
    by (simp add: put_existing map_of_od_del)
next
  case (Inr x)
  have len: "od_wf (cache self) \<Longrightarrow> Suc (length (od_del key (cache self))) = length (cache self)"
    using assms by (simp add: length_od_del_present)
  from Inr assms len show ?thesis
    by (simp add: put_existing map_of_del_snoc del: map_of_append)
qed

theorem put_existing_frame_witness:
  "od_contains ''b'' (cache example_cache) \<and>
   int (length (cache example_cache)) = capacity example_cache \<and>
   fst (LRUCache_put example_float_add example_cache ''b'' 7 (Some 60) 20) = Inr () \<and>
   od_wf (cache example_cache) \<and>
   map_of (cache (snd (LRUCache_put example_float_add example_cache ''b'' 7 (Some 60) 20))) ''a''
     = Some (1, None) \<and>
   map_of (cache (snd (LRUCache_put example_float_add example_cache ''b'' 7 (Some 60) 20))) ''b''
     = Some (7, Some (Finite 80)) \<and>
   length (cache (snd (LRUCache_put example_float_add example_cache ''b'' 7 (Some 60) 20))) = 2"
proof -
  have h: "od_contains ''b'' (cache example_cache)"
    by (simp add: example_cache_def od_contains_def)
  have r: "fst (LRUCache_put example_float_add example_cache ''b'' 7 (Some 60) 20) = Inr ()"
    by (simp add: put_existing [OF h] expiry_of_def example_float_add_def)
  have w: "od_wf (cache example_cache)"
    by (simp add: example_cache_def od_wf_def)
  have e: "expiry_of example_float_add (Some 60) 20 = Inr (Some (Finite 80))"
    by (simp add: expiry_of_def example_float_add_def)
  have a: "map_of (cache example_cache) ''a'' = Some (1, None)"
    and l: "length (cache example_cache) = 2" "capacity example_cache = 2"
    by (simp_all add: example_cache_def)
  from put_existing_frame [OF h, of example_float_add 7 "Some 60" 20] r w e a l h
  show ?thesis
    by auto
qed

text \<open>
  C10. A \<open>get\<close> that hits leaves the stored value and expiry of every key, its own
  included, as they were, and puts its key at the most recently used end. Whatever a
  \<open>get\<close> or an invalidation does, every entry of the cache afterwards is an entry that
  was there before, with the same value and the same expiry: only \<open>put\<close> writes an
  expiry.
\<close>

theorem get_keeps_expiry:
  "(LRUCache_get self key now = (Some v, self') \<longrightarrow>
      (\<exists>expiry. map_of (cache self) key = Some (v, expiry) \<and>
         cache self' \<noteq> [] \<and> last (cache self') = (key, (v, expiry))) \<and>
      (\<forall>k. map_of (cache self') k = map_of (cache self) k)) \<and>
   (\<forall>k e. map_of (cache (snd (LRUCache_get self key now))) k = Some e \<longrightarrow>
      map_of (cache self) k = Some e) \<and>
   (\<forall>k e. map_of (cache (api_cache (invalidate_cache api path))) k = Some e \<longrightarrow>
      map_of (cache (api_cache api)) k = Some e)"
proof -
  have hit: "(\<exists>expiry. map_of (cache self) key = Some (v, expiry) \<and>
         cache self' \<noteq> [] \<and> last (cache self') = (key, (v, expiry))) \<and>
      (\<forall>k. map_of (cache self') k = map_of (cache self) k)"
    if g: "LRUCache_get self key now = (Some v, self')"
  proof -
    from get_hit [OF g] obtain expiry where
      e: "map_of (cache self) key = Some (v, expiry)"
      and s: "self' = self\<lparr>cache := od_del key (cache self) @ [(key, (v, expiry))]\<rparr>"
      by blast
    have "map_of (cache self') k = map_of (cache self) k" for k
      using e s by (simp add: map_of_del_snoc del: map_of_append)
    with e s show ?thesis by auto
  qed
  have inv: "map_of (cache (api_cache api)) k = Some e"
    if "map_of (cache (api_cache (invalidate_cache api path))) k = Some e" for k e
    using that
    by (auto simp: invalidate_cache_def Let_def map_of_od_del split: option.splits if_splits)
  from hit get_entries_subset [of self key now] inv show ?thesis
    by blast
qed

theorem get_keeps_expiry_witness:
  "LRUCache_get example_cache ''b'' 20 =
     (Some 2, \<lparr>cache = [(''a'', (1, None)), (''b'', (2, Some (Finite 50)))], capacity = 2\<rparr>) \<and>
   (\<exists>expiry. map_of (cache example_cache) ''b'' = Some (2, expiry) \<and>
      last [(''a'', (1::int, None)), (''b'', (2, Some (Finite 50)))] = (''b'', (2, expiry)))"
proof -
  have g: "LRUCache_get example_cache ''b'' 20 =
     (Some 2, \<lparr>cache = [(''a'', (1, None)), (''b'', (2, Some (Finite 50)))], capacity = 2\<rparr>)"
    by (simp add: LRUCache_get_def example_cache_def is_expired_def od_move_to_end_def
        od_del_def)
  from get_keeps_expiry [of example_cache "''b''" 20 2
      "\<lparr>cache = [(''a'', (1, None)), (''b'', (2, Some (Finite 50)))], capacity = 2\<rparr>"] g
  show ?thesis
    by auto
qed

section \<open>Claims about \<open>API\<close>\<close>

text \<open>
  What holds of the claim C2: when the lookup returns a truthy value, \<open>fetch\<close> returns
  it, the native library is not called, the pipeline is not applied, and only the
  order of the cache changes.
\<close>

lemma fetch_hit:
  assumes "LRUCache_get (api_cache self) (''GET:'' @ path) now = (Some d, c)"
    and "py_truthy d"
  shows "fetch env self path cache_ttl now now' = (Inr d, self\<lparr>api_cache := c\<rparr>)"
  using assms by (simp add: fetch_def)

text \<open>
  C2. The claim says that a stored, unexpired value is returned without a call to the
  transport. The code tests the truth value of what the lookup returned, so a stored
  falsy payload counts as a miss. The transport answers \<open>/x\<close> with the empty dict: the
  first \<open>fetch\<close>, with a ttl of 60, stores it with expiry 161; the second
  \<open>fetch\<close>, ten seconds later, finds it, and calls the transport again.
\<close>

theorem fetch_empty_payload_refetched:
  "fetch example_env example_api ''/x'' (Some 60) 100 101 =
     (Inr (JDict []),
      \<lparr>middleware = [],
       api_cache = \<lparr>cache = [(''GET:/x'', (JDict [], Some (Finite 161)))], capacity = 2\<rparr>,
       native_calls = [Fetch ''/x'']\<rparr>) \<and>
   LRUCache_get \<lparr>cache = [(''GET:/x'', (JDict [], Some (Finite 161)))], capacity = 2\<rparr>
       ''GET:/x'' 110 =
     (Some (JDict []),
      \<lparr>cache = [(''GET:/x'', (JDict [], Some (Finite 161)))], capacity = 2\<rparr>) \<and>
   fetch example_env
       \<lparr>middleware = [],
        api_cache = \<lparr>cache = [(''GET:/x'', (JDict [], Some (Finite 161)))], capacity = 2\<rparr>,
        native_calls = [Fetch ''/x'']\<rparr>
       ''/x'' None 110 111 =
     (Inr (JDict []),
      \<lparr>middleware = [],
       api_cache = \<lparr>cache = [(''GET:/x'', (JDict [], Some (Finite 161)))], capacity = 2\<rparr>,
       native_calls = [Fetch ''/x'', Fetch ''/x'']\<rparr>)"
  by (simp add: fetch_def example_env_def example_api_def LRUCache_get_def LRUCache_put_def
      is_expired_def expiry_of_def example_float_add_def od_contains_def od_setitem_def
      od_move_to_end_def od_del_def)

text \<open>
  C4, as the claim states it, fails: a capacity of 0 is accepted by both constructors
  and no error is reported.
\<close>

theorem capacity_zero_accepted:
  "LRUCache_init 0 = Inr (\<lparr>cache = [], capacity = 0\<rparr> :: json LRUCache) \<and>
   API_init example_env ''http://host'' 0 =
     Inr \<lparr>middleware = [], api_cache = \<lparr>cache = [], capacity = 0\<rparr>, native_calls = []\<rparr>"
  by (simp add: LRUCache_init_def API_init_def example_env_def)

text \<open>
  C4. Constructing a cache reports no error, whatever the capacity: the capacity is
  stored as given, not clamped, and the constructor of \<open>API\<close> fails only when the base
  URL does not encode. A capacity below 1 shows at the first use: every \<open>put\<close> on the
  cache so constructed raises \<open>KeyError\<close> and leaves it empty.
\<close>

theorem construction_never_checks:
  "LRUCache_init cap = Inr \<lparr>cache = [], capacity = cap\<rparr> \<and>
   (encode env base_url = Inr b \<longrightarrow>
      API_init env base_url cap =
        Inr \<lparr>middleware = [], api_cache = \<lparr>cache = [], capacity = cap\<rparr>,
             native_calls = []\<rparr>) \<and>
   (cap < 1 \<longrightarrow>
      LRUCache_put fadd \<lparr>cache = [], capacity = cap\<rparr> key v ttl now =
        (Inl KeyError, \<lparr>cache = [], capacity = cap\<rparr>))"
  by (simp add: LRUCache_init_def API_init_def put_new_full_empty)

theorem construction_never_checks_witness:
  "encode example_env ''http://host'' = Inr ''http://host'' \<and> (-3::int) < 1 \<and>
   LRUCache_init (-3) = Inr (\<lparr>cache = [], capacity = -3\<rparr> :: json LRUCache) \<and>
   API_init example_env ''http://host'' (-3) =
     Inr \<lparr>middleware = [], api_cache = \<lparr>cache = [], capacity = -3\<rparr>, native_calls = []\<rparr> \<and>
   LRUCache_put example_float_add \<lparr>cache = [], capacity = -3\<rparr> ''k'' (JInt 1) (Some 60) 5 =
     (Inl KeyError, \<lparr>cache = [], capacity = -3\<rparr>)"
proof -
  have h1: "encode example_env ''http://host'' = Inr ''http://host''"
    by (simp add: example_env_def)
  have h2: "(-3::int) < 1" by simp
  from construction_never_checks [of "-3" example_env "''http://host''" "''http://host''"
      example_float_add "''k''" "JInt 1" "Some 60" 5] h1 h2
  show ?thesis
    by simp
qed

text \<open>
  What holds of the claim C6: with a non-empty path only the entry under
  \<open>"GET:" + path\<close> goes, the other entries stay in place and in order, and an absent
  key changes nothing; without a path everything goes.
\<close>

lemma invalidate_path:
  assumes "path \<noteq> []"
  shows "cache (api_cache (invalidate_cache self (Some path))) =
           od_del (''GET:'' @ path) (cache (api_cache self))"
    and "\<not> od_contains (''GET:'' @ path) (cache (api_cache self)) \<Longrightarrow>
           invalidate_cache self (Some path) = self"
  using assms od_del_absent [of "''GET:'' @ path" "cache (api_cache self)"]
  by (auto simp: invalidate_cache_def Let_def)

lemma invalidate_all: "cache (api_cache (invalidate_cache self None)) = []"
  by (simp add: invalidate_cache_def)

text \<open>
  C6. The claim says that a given path removes only its own entry. The code tests the
  truth value of the path, so the empty path, the one \<open>fetch("")\<close> caches under the
  key \<open>GET:\<close>, counts as no path: invalidating it empties the cache, the entry of
  \<open>/b\<close> included, where the claim leaves that entry in place.
\<close>

theorem invalidate_empty_path_clears_all:
  "cache (api_cache (invalidate_cache example_api2 (Some ''''))) = [] \<and>
   od_del (''GET:'' @ '''') (cache (api_cache example_api2)) =
     [(''GET:/b'', (JInt 2, Some (Finite 50)))]"
  by (simp add: invalidate_cache_def example_api2_def od_del_def)

text \<open>
  C7, as the claim states it, fails: \<open>send\<close> with a method that is no HTTP method
  reports no error and calls the write operation of the transport with it.
\<close>

theorem send_bad_method_reaches_transport:
  "send example_env example_api ''/x'' ''NOT A METHOD'' (JDict []) =
     (Inr (JDict []),
      \<lparr>middleware = [], api_cache = \<lparr>cache = [], capacity = 2\<rparr>,
       native_calls = [Send ''/x'' ''NOT A METHOD'' ''{}'']\<rparr>)"
  by (simp add: send_def example_env_def example_api_def)

text \<open>
  C7. \<open>send\<close> does not look at the method: whatever the method string, once the
  pipeline, \<open>json.dumps\<close> and the encoding of the arguments have returned, the write
  operation of the transport is called with that method, and \<open>send\<close> returns or raises
  what the transport and the decoding of its answer give.
\<close>

theorem send_passes_method_through:
  assumes "apply_middleware (middleware self) data = Inr data'"
    and "json_dumps env data' = Inr json_data"
    and "encode env path = Inr bpath"
    and "encode env method = Inr bmethod"
    and "encode env json_data = Inr bdata"
  shows "send env self path method data =
           ((case rust_core_send env bpath bmethod bdata of
               Inl e \<Rightarrow> Inl e
             | Inr json_str \<Rightarrow> json_loads env json_str),
            self\<lparr>native_calls := native_calls self @ [Send bpath bmethod bdata]\<rparr>)"
  using assms by (simp add: send_def split: sum.splits)

theorem send_passes_method_through_witness:
  "apply_middleware (middleware example_api) (JDict []) = Inr (JDict []) \<and>
   json_dumps example_env (JDict []) = Inr ''{}'' \<and>
   encode example_env ''/x'' = Inr ''/x'' \<and>
   encode example_env ''PURGE'' = Inr ''PURGE'' \<and>
   encode example_env ''{}'' = Inr ''{}'' \<and>
   send example_env example_api ''/x'' ''PURGE'' (JDict []) =
     (Inr (JDict []), example_api\<lparr>native_calls := [Send ''/x'' ''PURGE'' ''{}'']\<rparr>)"
proof -
  have h1: "apply_middleware (middleware example_api) (JDict []) = Inr (JDict [])"
    by (simp add: example_api_def)
  have h2: "json_dumps example_env (JDict []) = Inr ''{}''"
    and h3: "encode example_env ''/x'' = Inr ''/x''"
    and h4: "encode example_env ''PURGE'' = Inr ''PURGE''"
    and h5: "encode example_env ''{}'' = Inr ''{}''"
    by (simp_all add: example_env_def)
  have r: "rust_core_send example_env ''/x'' ''PURGE'' ''{}'' = Inr ''{}''"
    "json_loads example_env ''{}'' = Inr (JDict [])"
    "native_calls example_api = []"
    by (simp_all add: example_env_def example_api_def)
  from send_passes_method_through [OF h1 h2 h3 h4 h5] r h1 h2 h3 h4 h5
  show ?thesis
    by simp
qed

lemma apply_middleware_append:
  "apply_middleware (ms @ [m]) x =
     (case apply_middleware ms x of Inl e \<Rightarrow> Inl e | Inr y \<Rightarrow> m y)"
  by (induction ms arbitrary: x) (auto split: sum.splits)

lemma apply_middleware_total:
  "apply_middleware (map (\<lambda>f d. Inr (f d)) fs) x = Inr (fold (\<lambda>f d. f d) fs x)"
  by (induction fs arbitrary: x) auto

text \<open>
  C9. With \<open>T1\<close> and then \<open>T2\<close> added to an empty pipeline, applying it to \<open>x\<close> is
  \<open>T2(T1(x))\<close>: what \<open>T1\<close> raises is raised, what it returns goes to \<open>T2\<close>; for
  transforms that do not raise the result is the value \<open>f2 (f1 x)\<close>. In general
  \<open>add_middleware\<close> appends, the pipeline applied after one more \<open>add_middleware\<close> feeds
  the output of the transforms before to the new one, and a pipeline of transforms that
  do not raise is their left-to-right fold.
\<close>

theorem pipeline_order:
  "apply_middleware
     (middleware (add_middleware (add_middleware (self\<lparr>middleware := []\<rparr>) T1) T2)) x =
     (case T1 x of Inl e \<Rightarrow> Inl e | Inr y \<Rightarrow> T2 y) \<and>
   apply_middleware
     (middleware (add_middleware (add_middleware (self\<lparr>middleware := []\<rparr>)
        (\<lambda>d. Inr (f1 d))) (\<lambda>d. Inr (f2 d)))) x = Inr (f2 (f1 x)) \<and>
   middleware (add_middleware self m) = middleware self @ [m] \<and>
   apply_middleware (middleware (add_middleware self m)) x =
     (case apply_middleware (middleware self) x of Inl e \<Rightarrow> Inl e | Inr y \<Rightarrow> m y) \<and>
   apply_middleware (map (\<lambda>f d. Inr (f d)) fs) x = Inr (fold (\<lambda>f d. f d) fs x)"
  by (simp add: add_middleware_def apply_middleware_append apply_middleware_total
      split: sum.splits)

end
